theory Spec2Isabelle
  imports Main "HOL-Library.Sublist"
begin

section \<open>CrossThreadQueue: a bounded FIFO guarded by one mutex\<close>

text \<open>
  The class \<^verbatim>\<open>Jules::utils::CrossThreadQueue<T>\<close> of \<^verbatim>\<open>cross_thread_queue.hpp\<close>
  holds a \<^verbatim>\<open>std::deque<T> queue_\<close>, a \<^verbatim>\<open>std::mutex mutex_\<close> and a
  \<^verbatim>\<open>std::size_t max_count_\<close>. Every member function takes the mutex on entry and keeps
  it until it returns, so each call is one atomic step on the pair of the deque and the
  bound; the model is that sequential step function. The deque is a list whose head is the
  front (the oldest item). The fields \<open>queue\<close> and \<open>max_count\<close> of the record are the
  members \<^verbatim>\<open>queue_\<close> and \<^verbatim>\<open>max_count_\<close> (a field name cannot end in an underscore
  here).

  Sizes are natural numbers. The only arithmetic of the source on \<^verbatim>\<open>size_t\<close> is the sum
  \<^verbatim>\<open>ts.size() + queue_.size()\<close> of the batch \<^verbatim>\<open>Try_Push\<close>: the vector and the deque
  are two live containers of one address space whose elements take at least one byte
  each, so the sum stays below the range of \<^verbatim>\<open>size_t\<close> and does not wrap.
  Running out of memory (\<^verbatim>\<open>std::bad_alloc\<close>) is outside the model, and the
  \<^verbatim>\<open>operator==\<close> of \<^verbatim>\<open>T\<close> that \<^verbatim>\<open>Erase\<close> calls is equality of values.
\<close>

subsection \<open>Faults\<close>

text \<open>
  What the C++ leaves undefined or never finishes is a value of the model:
  \<^verbatim>\<open>pop_front()\<close>, \<^verbatim>\<open>front()\<close> on an empty deque and \<^verbatim>\<open>operator[]\<close> out of range are
  undefined behaviour, \<^verbatim>\<open>at()\<close> out of range throws \<^verbatim>\<open>std::out_of_range\<close>, and the
  polling loop of \<^verbatim>\<open>Pop_Must\<close> sleeps with the mutex held, so that no other thread can
  ever fill the queue it waits for.
\<close>

datatype fault = Undefined_Behaviour | Out_Of_Range | Blocks_Forever

subsection \<open>The containers of the standard library\<close>

definition push_back :: "'a \<Rightarrow> 'a list \<Rightarrow> 'a list" where
  "push_back t q = q @ [t]"

definition pop_front :: "'a list \<Rightarrow> fault + 'a list" where
  "pop_front q = (case q of [] \<Rightarrow> Inl Undefined_Behaviour | x # xs \<Rightarrow> Inr xs)"

definition front :: "'a list \<Rightarrow> fault + 'a" where
  "front q = (case q of [] \<Rightarrow> Inl Undefined_Behaviour | x # xs \<Rightarrow> Inr x)"

definition at :: "'a list \<Rightarrow> nat \<Rightarrow> fault + 'a" where
  "at q k = (if k < length q then Inr (q ! k) else Inl Out_Of_Range)"

definition erase_at :: "nat \<Rightarrow> 'a list \<Rightarrow> 'a list" where
  \<comment> \<open>\<^verbatim>\<open>queue_.erase(queue_.begin() + k)\<close>, called with \<open>k < length q\<close> only\<close>
  "erase_at k q = take k q @ drop (Suc k) q"

definition vec_set :: "'a list \<Rightarrow> nat \<Rightarrow> 'a \<Rightarrow> fault + 'a list" where
  \<comment> \<open>\<^verbatim>\<open>ts[i] = x\<close> on a \<^verbatim>\<open>std::vector\<close>\<close>
  "vec_set ts i x = (if i < length ts then Inr (ts[i := x]) else Inl Undefined_Behaviour)"

subsection \<open>The queue\<close>

record 'a CrossThreadQueue =
  queue :: "'a list"
  max_count :: nat

definition SIZE_MAX :: nat where
  \<comment> \<open>\<^verbatim>\<open>std::numeric_limits<size_t>::max()\<close> on a 64-bit target\<close>
  "SIZE_MAX = 2 ^ 64 - 1"

definition new_queue :: "'a CrossThreadQueue" where
  \<comment> \<open>the default constructor: an empty deque and the default member initialiser\<close>
  "new_queue = \<lparr>queue = [], max_count = SIZE_MAX\<rparr>"

subsection \<open>Capacity control and queries\<close>

function SetMaxCount_loop :: "nat \<Rightarrow> 'a list \<Rightarrow> fault + 'a list" where
  "SetMaxCount_loop mc q =
     (if length q \<ge> mc
      then (case pop_front q of Inl e \<Rightarrow> Inl e | Inr q' \<Rightarrow> SetMaxCount_loop mc q')
      else Inr q)"
  by pat_completeness auto
termination
  by (relation "measure (\<lambda>(mc, q). length q)")
     (auto simp: pop_front_def split: list.splits)

definition SetMaxCount :: "nat \<Rightarrow> 'a CrossThreadQueue \<Rightarrow> fault + 'a CrossThreadQueue" where
  "SetMaxCount ic s =
     (let s1 = s\<lparr>max_count := ic\<rparr>
      in case SetMaxCount_loop (max_count s1) (queue s1) of
           Inl e \<Rightarrow> Inl e
         | Inr q \<Rightarrow> Inr (s1\<lparr>queue := q\<rparr>))"

definition GetMaxCount :: "'a CrossThreadQueue \<Rightarrow> nat" where
  "GetMaxCount s = max_count s"

definition Size :: "'a CrossThreadQueue \<Rightarrow> nat" where
  "Size s = length (queue s)"

definition Full :: "'a CrossThreadQueue \<Rightarrow> bool" where
  "Full s = (length (queue s) = max_count s)"

definition Empty :: "'a CrossThreadQueue \<Rightarrow> bool" where
  "Empty s = (queue s = [])"

subsection \<open>Insertion\<close>

definition Try_Push :: "'a \<Rightarrow> 'a CrossThreadQueue \<Rightarrow> bool \<times> 'a CrossThreadQueue" where
  "Try_Push t s =
     (if length (queue s) < max_count s
      then (True, s\<lparr>queue := push_back t (queue s)\<rparr>)
      else (False, s))"

definition Try_Push_batch :: "'a list \<Rightarrow> 'a CrossThreadQueue \<Rightarrow> bool \<times> 'a CrossThreadQueue" where
  \<comment> \<open>the overload on \<^verbatim>\<open>const std::vector<T> &\<close>; both \<^verbatim>\<open>return\<close> statements return false\<close>
  "Try_Push_batch ts s =
     (if length ts + length (queue s) > max_count s
      then (False, s)
      else (False, s\<lparr>queue := fold push_back ts (queue s)\<rparr>))"

definition Push :: "'a \<Rightarrow> 'a CrossThreadQueue \<Rightarrow> fault + 'a CrossThreadQueue" where
  "Push t s =
     (let q = push_back t (queue s)
      in if length q > max_count s
         then (case pop_front q of Inl e \<Rightarrow> Inl e | Inr q' \<Rightarrow> Inr (s\<lparr>queue := q'\<rparr>))
         else Inr (s\<lparr>queue := q\<rparr>))"

fun Push_loop :: "'a list \<Rightarrow> nat \<Rightarrow> 'a list \<Rightarrow> fault + 'a list" where
  "Push_loop [] mc q = Inr q"
| "Push_loop (t # ts) mc q =
     (let q1 = push_back t q
      in if length q1 \<ge> mc
         then (case pop_front q1 of Inl e \<Rightarrow> Inl e | Inr q2 \<Rightarrow> Push_loop ts mc q2)
         else Push_loop ts mc q1)"

definition Push_batch :: "'a list \<Rightarrow> 'a CrossThreadQueue \<Rightarrow> fault + 'a CrossThreadQueue" where
  \<comment> \<open>the overload on \<^verbatim>\<open>const std::vector<T> &\<close>\<close>
  "Push_batch ts s =
     (case Push_loop ts (max_count s) (queue s) of
        Inl e \<Rightarrow> Inl e
      | Inr q \<Rightarrow> Inr (s\<lparr>queue := q\<rparr>))"

subsection \<open>Removal\<close>

definition Pop_Must :: "'a CrossThreadQueue \<Rightarrow> fault + ((bool \<times> 'a) \<times> 'a CrossThreadQueue)" where
  \<comment> \<open>the pointer \<^verbatim>\<open>t\<close> is taken to be valid; the value stored through it is returned\<close>
  "Pop_Must s =
     (if queue s = [] then Inl Blocks_Forever
      else case front (queue s) of
             Inl e \<Rightarrow> Inl e
           | Inr x \<Rightarrow> (case pop_front (queue s) of
                         Inl e \<Rightarrow> Inl e
                       | Inr q' \<Rightarrow> Inr ((True, x), s\<lparr>queue := q'\<rparr>)))"

definition Pop :: "bool \<Rightarrow> 'a CrossThreadQueue \<Rightarrow> fault + ((bool \<times> 'a option) \<times> 'a CrossThreadQueue)" where
  \<comment> \<open>\<^verbatim>\<open>Pop(T *t = nullptr)\<close>: the flag says whether \<^verbatim>\<open>t\<close> is non-null, the option is
      what is stored through it\<close>
  "Pop has_t s =
     (if queue s = [] then Inr ((False, None), s)
      else case (if has_t then map_sum id Some (front (queue s)) else Inr None) of
             Inl e \<Rightarrow> Inl e
           | Inr out \<Rightarrow> (case pop_front (queue s) of
                           Inl e \<Rightarrow> Inl e
                         | Inr q' \<Rightarrow> Inr ((True, out), s\<lparr>queue := q'\<rparr>)))"

function Pop_loop :: "nat \<Rightarrow> nat \<Rightarrow> 'a list \<Rightarrow> 'a list \<Rightarrow> fault + ('a list \<times> 'a list)" where
  "Pop_loop i sz ts q =
     (if i < sz
      then (case front q of
              Inl e \<Rightarrow> Inl e
            | Inr x \<Rightarrow> (case vec_set ts i x of
                          Inl e \<Rightarrow> Inl e
                        | Inr ts' \<Rightarrow> (case pop_front q of
                                         Inl e \<Rightarrow> Inl e
                                       | Inr q' \<Rightarrow> Pop_loop (Suc i) sz ts' q')))
      else Inr (ts, q))"
  by pat_completeness auto
termination
  by (relation "measure (\<lambda>(i, sz, ts, q). sz - i)") auto

definition Pop_bulk :: "'a \<Rightarrow> nat \<Rightarrow> 'a CrossThreadQueue \<Rightarrow> fault + ('a list \<times> 'a CrossThreadQueue)" where
  \<comment> \<open>\<^verbatim>\<open>Pop(std::size_t num = 1)\<close>; \<open>dflt\<close> is the value-initialised \<^verbatim>\<open>T()\<close> that fills
      \<^verbatim>\<open>std::vector<T> ts(sz)\<close>\<close>
  "Pop_bulk dflt num s =
     (let sz = min num (length (queue s));
          ts = replicate sz dflt
      in case Pop_loop 0 sz ts (queue s) of
           Inl e \<Rightarrow> Inl e
         | Inr (ts', q') \<Rightarrow> Inr (ts', s\<lparr>queue := q'\<rparr>))"

definition Clear :: "'a CrossThreadQueue \<Rightarrow> 'a CrossThreadQueue" where
  "Clear s = s\<lparr>queue := []\<rparr>"

function Erase_loop :: "nat \<Rightarrow> 'a \<Rightarrow> 'a list \<Rightarrow> fault + (bool \<times> 'a list)" where
  "Erase_loop k t q =
     (if k < length q
      then (case at q k of
              Inl e \<Rightarrow> Inl e
            | Inr x \<Rightarrow> if t = x then Inr (True, erase_at k q) else Erase_loop (Suc k) t q)
      else Inr (False, q))"
  by pat_completeness auto
termination
  by (relation "measure (\<lambda>(k, t, q). length q - k)") auto

definition Erase :: "'a \<Rightarrow> 'a CrossThreadQueue \<Rightarrow> fault + (bool \<times> 'a CrossThreadQueue)" where
  "Erase t s =
     (case Erase_loop 0 t (queue s) of
        Inl e \<Rightarrow> Inl e
      | Inr (b, q) \<Rightarrow> Inr (b, s\<lparr>queue := q\<rparr>))"

subsection \<open>Sequences of calls\<close>

text \<open>
  A client of the queue issues member calls one after the other; \<open>exec\<close> is one call and
  \<open>run\<close> a sequence of them, which stops at the first call that does not return.
  \<^verbatim>\<open>Sleep\<close> is static and touches no member, so it is not a call of the model.
\<close>

datatype 'a call =
    Call_SetMaxCount nat
  | Call_GetMaxCount
  | Call_Size
  | Call_Full
  | Call_Empty
  | Call_Try_Push 'a
  | Call_Try_Push_batch "'a list"
  | Call_Push 'a
  | Call_Push_batch "'a list"
  | Call_Pop bool
  | Call_Pop_bulk nat
  | Call_Pop_Must
  | Call_Clear
  | Call_Erase 'a

datatype 'a ret =
    Ret_void
  | Ret_bool bool
  | Ret_size nat
  | Ret_pop bool "'a option"
  | Ret_items "'a list"

fun exec :: "'a \<Rightarrow> 'a call \<Rightarrow> 'a CrossThreadQueue \<Rightarrow> fault + ('a ret \<times> 'a CrossThreadQueue)" where
  "exec d (Call_SetMaxCount n) s = map_sum id (Pair Ret_void) (SetMaxCount n s)"
| "exec d Call_GetMaxCount s = Inr (Ret_size (GetMaxCount s), s)"
| "exec d Call_Size s = Inr (Ret_size (Size s), s)"
| "exec d Call_Full s = Inr (Ret_bool (Full s), s)"
| "exec d Call_Empty s = Inr (Ret_bool (Empty s), s)"
| "exec d (Call_Try_Push t) s = Inr (map_prod Ret_bool id (Try_Push t s))"
| "exec d (Call_Try_Push_batch ts) s = Inr (map_prod Ret_bool id (Try_Push_batch ts s))"
| "exec d (Call_Push t) s = map_sum id (Pair Ret_void) (Push t s)"
| "exec d (Call_Push_batch ts) s = map_sum id (Pair Ret_void) (Push_batch ts s)"
| "exec d (Call_Pop has_t) s = map_sum id (map_prod (\<lambda>(b, out). Ret_pop b out) id) (Pop has_t s)"
| "exec d (Call_Pop_bulk n) s = map_sum id (map_prod Ret_items id) (Pop_bulk d n s)"
| "exec d Call_Pop_Must s = map_sum id (map_prod (\<lambda>(b, x). Ret_pop b (Some x)) id) (Pop_Must s)"
| "exec d Call_Clear s = Inr (Ret_void, Clear s)"
| "exec d (Call_Erase t) s = map_sum id (map_prod Ret_bool id) (Erase t s)"

fun sets_bound :: "'a call \<Rightarrow> bool" where
  "sets_bound (Call_SetMaxCount n) = True"
| "sets_bound c = False"

text \<open>
  The items a call puts into the deque when it starts in state \<open>s\<close> (the guards are those
  of \<^verbatim>\<open>Try_Push\<close>), and the items a returned value hands to the caller.
\<close>

fun accepted :: "'a call \<Rightarrow> 'a CrossThreadQueue \<Rightarrow> 'a list" where
  "accepted (Call_Try_Push t) s = (if length (queue s) < max_count s then [t] else [])"
| "accepted (Call_Try_Push_batch ts) s =
     (if length ts + length (queue s) > max_count s then [] else ts)"
| "accepted (Call_Push t) s = [t]"
| "accepted (Call_Push_batch ts) s = ts"
| "accepted c s = []"

fun delivered :: "'a ret \<Rightarrow> 'a list" where
  "delivered (Ret_pop b out) = (case out of None \<Rightarrow> [] | Some x \<Rightarrow> [x])"
| "delivered (Ret_items xs) = xs"
| "delivered r = []"

fun run :: "'a \<Rightarrow> 'a call list \<Rightarrow> 'a CrossThreadQueue
              \<Rightarrow> fault + ('a list \<times> 'a list \<times> 'a CrossThreadQueue)" where
  "run d [] s = Inr ([], [], s)"
| "run d (c # cs) s =
     (case exec d c s of
        Inl e \<Rightarrow> Inl e
      | Inr (r, s1) \<Rightarrow>
          (case run d cs s1 of
             Inl e \<Rightarrow> Inl e
           | Inr (ins, outs, s2) \<Rightarrow> Inr (accepted c s @ ins, delivered r @ outs, s2)))"

text \<open>
  The step of the batch \<^verbatim>\<open>Push\<close> in the words of its description: insert the item
  at the back, then evict the oldest item if the size is now greater than or equal to
  the bound. It is compared with the loop of the source below.
\<close>

definition insert_then_evict :: "nat \<Rightarrow> 'a \<Rightarrow> 'a list \<Rightarrow> 'a list" where
  "insert_then_evict mc t q = (if length (q @ [t]) \<ge> mc then tl (q @ [t]) else q @ [t])"

declare SetMaxCount_loop.simps [simp del]
declare Pop_loop.simps [simp del]
declare Erase_loop.simps [simp del]

section \<open>The loops in closed form\<close>

lemma SetMaxCount_loop_zero: "SetMaxCount_loop 0 q = Inl Undefined_Behaviour"
proof (induction q)
  case Nil
  show ?case by (subst SetMaxCount_loop.simps) (simp add: pop_front_def)
next
  case (Cons x xs)
  then show ?case by (subst SetMaxCount_loop.simps) (simp add: pop_front_def)
qed

lemma SetMaxCount_loop_pos:
  "0 < mc \<Longrightarrow> SetMaxCount_loop mc q = Inr (drop (length q - (mc - 1)) q)"
proof (induction q)
  case Nil
  then show ?case by (subst SetMaxCount_loop.simps) simp
next
  case (Cons x xs)
  show ?case
  proof (cases "mc \<le> Suc (length xs)")
    case True
    with Cons have "Suc (length xs) - (mc - 1) = Suc (length xs - (mc - 1))" by arith
    with True Cons show ?thesis
      by (subst SetMaxCount_loop.simps) (simp add: pop_front_def)
  next
    case False
    then show ?thesis by (subst SetMaxCount_loop.simps) simp
  qed
qed

lemma SetMaxCount_zero: "SetMaxCount 0 s = Inl Undefined_Behaviour"
  by (simp add: SetMaxCount_def SetMaxCount_loop_zero)

lemma SetMaxCount_pos:
  "0 < n \<Longrightarrow> SetMaxCount n s =
     Inr (s\<lparr>max_count := n, queue := drop (length (queue s) - (n - 1)) (queue s)\<rparr>)"
  by (simp add: SetMaxCount_def SetMaxCount_loop_pos)

lemma fold_push_back: "fold push_back ts q = q @ ts"
  by (induction ts arbitrary: q) (simp_all add: push_back_def)

lemma Try_Push_batch_eq:
  "Try_Push_batch ts s =
     (False, if length (queue s) + length ts \<le> max_count s
             then s\<lparr>queue := queue s @ ts\<rparr> else s)"
  by (simp add: Try_Push_batch_def fold_push_back)

lemma Push_eq:
  "Push t s = Inr (s\<lparr>queue := (if length (queue s) + 1 > max_count s
                                 then tl (queue s @ [t]) else queue s @ [t])\<rparr>)"
  by (simp add: Push_def push_back_def pop_front_def Let_def split: list.splits)

lemma Push_loop_fold: "Push_loop ts mc q = Inr (fold (insert_then_evict mc) ts q)"
  by (induction ts arbitrary: q) (auto simp: push_back_def pop_front_def Let_def insert_then_evict_def split: list.splits)

lemma Pop_loop_eq:
  "i \<le> sz \<Longrightarrow> length ts = sz \<Longrightarrow> sz - i \<le> length q \<Longrightarrow>
   Pop_loop i sz ts q = Inr (take i ts @ take (sz - i) q, drop (sz - i) q)"
proof (induction i sz ts q rule: Pop_loop.induct)
  case (1 i sz ts q)
  show ?case
  proof (cases "i < sz")
    case True
    with 1 obtain x q' where q: "q = x # q'" by (cases q) auto
    have IH: "Pop_loop (Suc i) sz (ts[i := x]) q' =
        Inr (take (Suc i) (ts[i := x]) @ take (sz - Suc i) q', drop (sz - Suc i) q')"
      using 1 True q by (intro "1.IH"[of x "ts[i := x]" q']) (auto simp: front_def vec_set_def pop_front_def)
    have "take (Suc i) (ts[i := x]) = take i ts @ [x]"
      using True 1 by (simp add: take_Suc_conv_app_nth)
    moreover have "sz - i = Suc (sz - Suc i)" using True by arith
    ultimately show ?thesis using True 1 q IH
      by (subst Pop_loop.simps) (simp add: front_def vec_set_def pop_front_def)
  next
    case False
    with 1 show ?thesis by (subst Pop_loop.simps) simp
  qed
qed

lemma Pop_bulk_eq:
  "Pop_bulk d n s = Inr (take (min n (length (queue s))) (queue s),
                         s\<lparr>queue := drop (min n (length (queue s))) (queue s)\<rparr>)"
  by (simp add: Pop_bulk_def Let_def Pop_loop_eq)

lemma Erase_loop_eq:
  "k \<le> length q \<Longrightarrow> t \<notin> set (take k q) \<Longrightarrow>
   Erase_loop k t q = Inr (t \<in> set q, remove1 t q)"
proof (induction k t q rule: Erase_loop.induct)
  case (1 k t q)
  show ?case
  proof (cases "k < length q")
    case True
    show ?thesis
    proof (cases "t = q ! k")
      case eq: True
      have "q = take k q @ q ! k # drop (Suc k) q" using True by (simp add: id_take_nth_drop)
      then have "remove1 t q = take k q @ drop (Suc k) q"
        using 1(3) eq by (metis remove1.simps(2) remove1_append)
      with True eq show ?thesis
        by (subst Erase_loop.simps) (simp add: at_def erase_at_def)
    next
      case False
      have "t \<notin> set (take (Suc k) q)" using 1(3) False True by (simp add: take_Suc_conv_app_nth)
      with 1 True False have "Erase_loop (Suc k) t q = Inr (t \<in> set q, remove1 t q)"
        by (intro "1.IH"[of "q ! k"]) (auto simp: at_def)
      with True False show ?thesis
        by (subst Erase_loop.simps) (simp add: at_def)
    qed
  next
    case False
    with 1 have "t \<notin> set q" by simp
    with False show ?thesis
      by (subst Erase_loop.simps) (simp add: remove1_idem)
  qed
qed

lemma Erase_eq: "Erase t s = Inr (t \<in> set (queue s), s\<lparr>queue := remove1 t (queue s)\<rparr>)"
  by (simp add: Erase_def Erase_loop_eq)


lemma Pop_eq:
  "Pop has_t s =
     Inr (if queue s = [] then ((False, None), s)
          else ((True, if has_t then Some (hd (queue s)) else None), s\<lparr>queue := tl (queue s)\<rparr>))"
  by (simp add: Pop_def front_def pop_front_def split: list.splits)

lemma Pop_Must_eq:
  "Pop_Must s =
     (if queue s = [] then Inl Blocks_Forever
      else Inr ((True, hd (queue s)), s\<lparr>queue := tl (queue s)\<rparr>))"
  by (simp add: Pop_Must_def front_def pop_front_def split: list.splits)

lemma Push_batch_eq:
  "Push_batch ts s = Inr (s\<lparr>queue := fold (insert_then_evict (max_count s)) ts (queue s)\<rparr>)"
  by (simp add: Push_batch_def Push_loop_fold)

lemma length_fold_insert_then_evict:
  "length q \<le> mc \<Longrightarrow> length (fold (insert_then_evict mc) ts q) \<le> mc"
  by (induction ts arbitrary: q) (auto simp: insert_then_evict_def)

lemma suffix_fold_insert_then_evict:
  "suffix (fold (insert_then_evict mc) ts q) (q @ ts)"
proof (induction ts arbitrary: q)
  case Nil
  show ?case by simp
next
  case (Cons t ts)
  have "suffix (insert_then_evict mc t q) (q @ [t])"
    by (cases "mc \<le> length (q @ [t])")
       (simp_all only: insert_then_evict_def if_True if_False suffix_tl suffix_order.refl)
  then have "suffix (insert_then_evict mc t q @ ts) ((q @ [t]) @ ts)"
    by (simp only: suffix_append) blast
  with Cons[of "insert_then_evict mc t q"] show ?case
    by (auto intro: suffix_order.trans)
qed

lemma subseq_remove1: "subseq (remove1 t q) q"
  by (induction q) auto

text \<open>
  The log \<open>accepted\<close> is what the two \<^verbatim>\<open>Try_Push\<close> append, and what the two \<^verbatim>\<open>Push\<close>
  append before they evict.
\<close>

lemma accepted_Try_Push:
  "snd (Try_Push t s) = s\<lparr>queue := queue s @ accepted (Call_Try_Push t) s\<rparr>"
  by (simp add: Try_Push_def push_back_def)

lemma accepted_Try_Push_batch:
  "snd (Try_Push_batch ts s) = s\<lparr>queue := queue s @ accepted (Call_Try_Push_batch ts) s\<rparr>"
  by (simp add: Try_Push_batch_eq)

lemma accepted_Push:
  "\<exists>k. Push t s = Inr (s\<lparr>queue := drop k (queue s @ accepted (Call_Push t) s)\<rparr>)"
proof (cases "Size s + 1 > GetMaxCount s")
  case True
  have "drop 1 (queue s @ [t]) = tl (queue s @ [t])"
    by (simp only: One_nat_def drop_Suc drop_0)
  with True show ?thesis
    by (intro exI[of _ 1]) (simp only: Push_eq accepted.simps Size_def GetMaxCount_def if_True)
next
  case False
  then show ?thesis
    by (intro exI[of _ 0]) (simp add: Push_eq Size_def GetMaxCount_def)
qed

lemma exec_bound:
  assumes "exec d c s = Inr (r, s')" and "length (queue s) \<le> max_count s"
  shows "length (queue s') \<le> max_count s'"
proof (cases c)
  case (Call_SetMaxCount n)
  with assms show ?thesis
    by (cases "n = 0") (auto simp: SetMaxCount_zero SetMaxCount_pos)
next
  case (Call_Push_batch ts)
  with assms show ?thesis
    by (auto simp: Push_batch_eq length_fold_insert_then_evict)
next
  case (Call_Erase t)
  have "length (remove1 t (queue s)) \<le> length (queue s)"
    by (simp add: length_remove1)
  with Call_Erase assms show ?thesis
    by (auto simp: Erase_eq)
qed (use assms in \<open>auto simp: Try_Push_def Try_Push_batch_eq push_back_def Push_eq Pop_eq
      Pop_bulk_eq Pop_Must_eq Clear_def split: if_splits\<close>)

lemma exec_order:
  assumes "exec d c s = Inr (r, s')"
  shows "subseq (delivered r @ queue s') (queue s @ accepted c s)"
proof (cases c)
  case (Call_SetMaxCount n)
  with assms show ?thesis
    by (cases "n = 0") (auto simp: SetMaxCount_zero SetMaxCount_pos intro: suffix_drop)
next
  case (Call_Push t)
  with assms show ?thesis
    by (auto simp: Push_eq intro: suffix_tl split: if_splits)
next
  case (Call_Push_batch ts)
  with assms suffix_imp_subseq[OF suffix_fold_insert_then_evict] show ?thesis
    by (auto simp: Push_batch_eq)
next
  case (Call_Erase t)
  with assms show ?thesis
    by (auto simp: Erase_eq subseq_remove1)
next
  case (Call_Pop has_t)
  with assms show ?thesis
    by (auto simp: Pop_eq intro: suffix_tl split: if_splits)
qed (use assms in \<open>auto simp: Try_Push_def Try_Push_batch_eq push_back_def
      Pop_bulk_eq Pop_Must_eq Clear_def split: if_splits\<close>)

lemma exec_frame:
  assumes "\<not> sets_bound c" and "exec d c s = Inr (r, s')"
  shows "max_count s' = max_count s"
  using assms
  by (cases c) (auto simp: Try_Push_def Try_Push_batch_eq Push_eq Push_batch_eq Pop_eq
      Pop_bulk_eq Pop_Must_eq Clear_def Erase_eq split: if_splits)

lemma run_bound:
  "run d cs s0 = Inr (ins, outs, s) \<Longrightarrow> length (queue s0) \<le> max_count s0
   \<Longrightarrow> length (queue s) \<le> max_count s"
proof (induction cs arbitrary: s0 ins outs)
  case Nil
  then show ?case by simp
next
  case (Cons c cs)
  from Cons.prems(1) obtain r s1 ins1 outs1 where
    e: "exec d c s0 = Inr (r, s1)" and rr: "run d cs s1 = Inr (ins1, outs1, s)"
    by (auto split: sum.splits)
  from Cons.IH[OF rr exec_bound[OF e Cons.prems(2)]] show ?case .
qed

lemma run_order:
  "run d cs s0 = Inr (ins, outs, s) \<Longrightarrow> subseq (outs @ queue s) (queue s0 @ ins)"
proof (induction cs arbitrary: s0 ins outs)
  case Nil
  then show ?case by simp
next
  case (Cons c cs)
  from Cons.prems(1) obtain r s1 ins1 outs1 where
    e: "exec d c s0 = Inr (r, s1)" and rr: "run d cs s1 = Inr (ins1, outs1, s)"
    and i: "ins = accepted c s0 @ ins1" and out: "outs = delivered r @ outs1"
    by (auto split: sum.splits)
  have "subseq (outs1 @ queue s) (queue s1 @ ins1)" by (rule Cons.IH[OF rr])
  then have "subseq (delivered r @ outs1 @ queue s) (delivered r @ queue s1 @ ins1)"
    by (simp only: subseq_append')
  moreover have "subseq ((delivered r @ queue s1) @ ins1) ((queue s0 @ accepted c s0) @ ins1)"
    using exec_order[OF e] by (simp only: subseq_append)
  ultimately show ?case
    unfolding i out by (auto intro: subseq_order.trans)
qed

section \<open>The claims\<close>

text \<open>
  C1. The batch \<^verbatim>\<open>Try_Push\<close> is to insert the whole batch iff it fits and to return
  true exactly when it did. The insertion is as claimed (\<open>Try_Push_batch_eq\<close>), the
  returned value is not: with the items \<open>[1]\<close> queued under the bound 3, the batch
  \<open>[2, 3]\<close> fits and is appended, and the call returns false, against the comment
  \<^verbatim>\<open>@return true for pushed false for failed\<close> of its declaration.
\<close>

theorem Try_Push_batch_accepted_returns_false:
  "Try_Push_batch [2, 3] \<lparr>queue = [1::nat], max_count = 3\<rparr>
     = (False, \<lparr>queue = [1, 2, 3], max_count = 3\<rparr>)"
  by (simp add: Try_Push_batch_eq)

text \<open>
  C2, as stated: \<^verbatim>\<open>SetMaxCount(n)\<close> leaves the stored sequence unchanged whenever the
  size is less than or equal to \<open>n\<close>. Not at equality: the queue \<open>[1, 2]\<close> has size 2,
  and \<^verbatim>\<open>SetMaxCount(2)\<close> evicts the item 1, since the loop runs while
  \<^verbatim>\<open>queue_.size() >= max_count_\<close>.
\<close>

theorem SetMaxCount_evicts_at_equal_size:
  "Size \<lparr>queue = [1::nat, 2], max_count = 2\<rparr> \<le> 2
   \<and> SetMaxCount 2 \<lparr>queue = [1::nat, 2], max_count = 2\<rparr> = Inr \<lparr>queue = [2], max_count = 2\<rparr>"
  by (simp add: Size_def SetMaxCount_pos)

text \<open>
  C2, amended: for every queue state and every \<open>n > 0\<close>, \<^verbatim>\<open>SetMaxCount(n)\<close> returns, sets
  the bound to \<open>n\<close> and evicts oldest items only if the current size is at least \<open>n\<close>, in
  which case it evicts until the size is \<open>n - 1\<close>, below \<open>n\<close>: the newest \<open>n - 1\<close> items
  stay, in their order. If the current size is strictly less than \<open>n\<close>, the stored
  sequence is unchanged.
\<close>

theorem SetMaxCount_evicts_below_bound:
  "0 < n \<Longrightarrow>
   (\<exists>s'. SetMaxCount n s = Inr s' \<and> GetMaxCount s' = n
      \<and> (Size s < n \<longrightarrow> queue s' = queue s)
      \<and> (n \<le> Size s \<longrightarrow> Size s' = n - 1 \<and> queue s' = drop (Size s - (n - 1)) (queue s)))"
  by (auto simp: SetMaxCount_pos GetMaxCount_def Size_def)

theorem SetMaxCount_evicts_below_bound_witness:
  "(0::nat) < 3
   \<and> (3::nat) \<le> Size \<lparr>queue = [1::nat, 2, 3, 4], max_count = 9\<rparr>
   \<and> SetMaxCount 3 \<lparr>queue = [1::nat, 2, 3, 4], max_count = 9\<rparr> = Inr \<lparr>queue = [3, 4], max_count = 3\<rparr>
   \<and> Size \<lparr>queue = [1::nat, 2], max_count = 9\<rparr> < 3
   \<and> SetMaxCount 3 \<lparr>queue = [1::nat, 2], max_count = 9\<rparr> = Inr \<lparr>queue = [1, 2], max_count = 3\<rparr>"
proof -
  have h: "(0::nat) < 3" by simp
  from SetMaxCount_evicts_below_bound[OF h, of "\<lparr>queue = [1::nat, 2, 3, 4], max_count = 9\<rparr>"]
  obtain s' where "SetMaxCount 3 \<lparr>queue = [1::nat, 2, 3, 4], max_count = 9\<rparr> = Inr s'"
    and "GetMaxCount s' = 3" and "queue s' = drop (4 - (3 - 1)) [1, 2, 3, 4]"
    by (auto simp: Size_def)
  then have a: "SetMaxCount 3 \<lparr>queue = [1::nat, 2, 3, 4], max_count = 9\<rparr> = Inr \<lparr>queue = [3, 4], max_count = 3\<rparr>"
    by (cases s') (simp add: GetMaxCount_def)
  from SetMaxCount_evicts_below_bound[OF h, of "\<lparr>queue = [1::nat, 2], max_count = 9\<rparr>"]
  obtain s'' where "SetMaxCount 3 \<lparr>queue = [1::nat, 2], max_count = 9\<rparr> = Inr s''"
    and "GetMaxCount s'' = 3" and "queue s'' = [1, 2]"
    by (auto simp: Size_def)
  then have b: "SetMaxCount 3 \<lparr>queue = [1::nat, 2], max_count = 9\<rparr> = Inr \<lparr>queue = [1, 2], max_count = 3\<rparr>"
    by (cases s'') (simp add: GetMaxCount_def)
  from a b show ?thesis by (simp add: Size_def)
qed

text \<open>
  C3. \<^verbatim>\<open>SetMaxCount\<close> is to return for every argument and \<^verbatim>\<open>SetMaxCount(0)\<close> to leave
  the queue empty. With the bound 0 the guard \<^verbatim>\<open>queue_.size() >= max_count_\<close> of the
  loop holds of every size, that of the empty deque too: the loop empties the deque and
  then calls \<^verbatim>\<open>pop_front()\<close> on the empty deque, so the call never returns a queue,
  whether it starts from the new queue or from a filled one (\<open>SetMaxCount_zero\<close> has it
  for every state).
\<close>

theorem SetMaxCount_zero_never_returns:
  "SetMaxCount 0 (new_queue :: nat CrossThreadQueue) = Inl Undefined_Behaviour
   \<and> SetMaxCount 0 \<lparr>queue = [1::nat, 2], max_count = 5\<rparr> = Inl Undefined_Behaviour"
  by (simp add: SetMaxCount_zero)

text \<open>
  C4. Start from the constructed queue and issue any sequence of calls. Whenever the
  sequence has returned (each of its calls has completed), the size of the queue is at
  most its bound. Every prefix of a sequence is a sequence, so this holds after each
  call. A sequence with \<^verbatim>\<open>SetMaxCount(0)\<close> or with \<^verbatim>\<open>Pop_Must\<close> on an empty queue
  does not get past that call.
\<close>

theorem run_keeps_size_within_bound:
  "run d cs new_queue = Inr (ins, outs, s) \<Longrightarrow> Size s \<le> GetMaxCount s"
  unfolding Size_def GetMaxCount_def
  by (erule run_bound) (simp add: new_queue_def)

theorem run_keeps_size_within_bound_witness:
  "run (0::nat) [Call_SetMaxCount 3, Call_Push 1, Call_Push_batch [2, 3, 4], Call_Try_Push 5,
          Call_Try_Push_batch [6, 7], Call_Push 8, Call_Push 9, Call_Pop True, Call_Erase 9]
       new_queue
     = Inr ([1, 2, 3, 4, 5, 8, 9], [5], \<lparr>queue = [8::nat], max_count = 3\<rparr>)
   \<and> Size \<lparr>queue = [8::nat], max_count = 3\<rparr> \<le> GetMaxCount \<lparr>queue = [8::nat], max_count = 3\<rparr>"
proof -
  have h: "run (0::nat) [Call_SetMaxCount 3, Call_Push 1, Call_Push_batch [2, 3, 4], Call_Try_Push 5,
          Call_Try_Push_batch [6, 7], Call_Push 8, Call_Push 9, Call_Pop True, Call_Erase 9]
       new_queue
     = Inr ([1, 2, 3, 4, 5, 8, 9], [5], \<lparr>queue = [8::nat], max_count = 3\<rparr>)"
    by (simp add: new_queue_def SetMaxCount_pos Push_eq Push_batch_eq insert_then_evict_def
        Try_Push_def Try_Push_batch_eq push_back_def Pop_eq Erase_eq)
  from h run_keeps_size_within_bound[OF h] show ?thesis by simp
qed

text \<open>
  C5. Run any sequence of calls from any state \<open>s0\<close>. Let \<open>ins\<close> be the items the push
  calls put into the queue, in call order, and \<open>outs\<close> the items the pop calls handed
  back, in call order. Then \<open>outs\<close> followed by what is still queued is a subsequence of
  what was queued at the start followed by \<open>ins\<close>: the items that were neither evicted
  nor erased come out, and wait, in the order in which they went in.
\<close>

theorem run_preserves_push_order:
  "run d cs s0 = Inr (ins, outs, s) \<Longrightarrow> subseq (outs @ queue s) (queue s0 @ ins)"
  by (rule run_order)

theorem run_preserves_push_order_witness:
  "run (0::nat) [Call_Push_batch [1, 2], Call_Pop_bulk 1, Call_SetMaxCount 3, Call_Push_batch [3, 4, 5],
          Call_Erase 4, Call_Push 6, Call_Push 7, Call_Try_Push 8, Call_Pop_bulk 2, Call_Pop_Must]
       new_queue
     = Inr ([1, 2, 3, 4, 5, 6, 7], [1, 5, 6, 7], \<lparr>queue = [], max_count = 3\<rparr>)
   \<and> subseq ([1, 5, 6, 7] @ queue \<lparr>queue = [], max_count = 3\<rparr>)
              (queue (new_queue :: nat CrossThreadQueue) @ [1, 2, 3, 4, 5, 6, 7::nat])"
proof -
  have h: "run (0::nat) [Call_Push_batch [1, 2], Call_Pop_bulk 1, Call_SetMaxCount 3, Call_Push_batch [3, 4, 5],
          Call_Erase 4, Call_Push 6, Call_Push 7, Call_Try_Push 8, Call_Pop_bulk 2, Call_Pop_Must]
       new_queue
     = Inr ([1, 2, 3, 4, 5, 6, 7], [1, 5, 6, 7], \<lparr>queue = [], max_count = 3\<rparr>)"
    by (simp add: new_queue_def SIZE_MAX_def SetMaxCount_pos Push_eq Push_batch_eq insert_then_evict_def
        Try_Push_def push_back_def Pop_bulk_eq Pop_Must_eq Erase_eq)
  from h run_preserves_push_order[OF h] show ?thesis by simp
qed

text \<open>
  C6. \<^verbatim>\<open>Push(t)\<close> always returns. It appends \<open>t\<close> and then, if the size is above the
  bound, evicts the one item at the front. On a full queue (size equal to the bound) the
  result is the queue with \<open>t\<close> appended and its front item removed, and the size is
  again the bound; when the full queue holds an item this is the old queue without its
  oldest item, followed by \<open>t\<close>.
\<close>

theorem Push_inserts_and_evicts_at_most_one:
  "Push t s = Inr (s\<lparr>queue := (if Size s + 1 > GetMaxCount s
                                 then tl (queue s @ [t]) else queue s @ [t])\<rparr>)
   \<and> (Full s \<longrightarrow> (\<exists>s'. Push t s = Inr s' \<and> queue s' = tl (queue s @ [t])
                          \<and> Size s' = GetMaxCount s' \<and> GetMaxCount s' = GetMaxCount s))
   \<and> (Full s \<and> \<not> Empty s \<longrightarrow> (\<exists>s'. Push t s = Inr s' \<and> queue s' = tl (queue s) @ [t]))"
  by (auto simp: Push_eq Size_def GetMaxCount_def Full_def Empty_def)

theorem Push_inserts_and_evicts_at_most_one_witness:
  "Full \<lparr>queue = [1::nat, 2, 3], max_count = 3\<rparr> \<and> \<not> Empty \<lparr>queue = [1::nat, 2, 3], max_count = 3\<rparr>
   \<and> Push 4 \<lparr>queue = [1::nat, 2, 3], max_count = 3\<rparr> = Inr \<lparr>queue = [2, 3, 4], max_count = 3\<rparr>"
  using Push_inserts_and_evicts_at_most_one[of 4 "\<lparr>queue = [1::nat, 2, 3], max_count = 3\<rparr>"]
  by (simp add: Full_def Empty_def Size_def GetMaxCount_def)

text \<open>
  C7. The bulk \<^verbatim>\<open>Pop(n)\<close> always returns (it has no wait). It returns the first
  \<open>min n (Size s)\<close> items in queue order, none when the queue is empty, and leaves the
  rest: the old sequence is the returned items followed by the new sequence, and the
  size went down by the number of items returned.
\<close>

theorem Pop_bulk_takes_front_items:
  "Pop_bulk d n s = Inr (take (min n (Size s)) (queue s),
                         s\<lparr>queue := drop (min n (Size s)) (queue s)\<rparr>)
   \<and> (\<exists>items s'. Pop_bulk d n s = Inr (items, s') \<and> length items = min n (Size s)
          \<and> queue s = items @ queue s' \<and> Size s' = Size s - length items
          \<and> GetMaxCount s' = GetMaxCount s)"
  by (simp add: Pop_bulk_eq Size_def GetMaxCount_def)

theorem Pop_bulk_takes_front_items_witness:
  "Pop_bulk 0 2 \<lparr>queue = [2::nat, 3, 4], max_count = 3\<rparr>
     = Inr ([2, 3], \<lparr>queue = [4], max_count = 3\<rparr>)"
  using Pop_bulk_takes_front_items[of 0 2 "\<lparr>queue = [2::nat, 3, 4], max_count = 3\<rparr>"]
  by (simp add: Size_def)

text \<open>
  C8. The batch \<^verbatim>\<open>Push(ts)\<close> always returns, and its result is that of taking the
  items of \<open>ts\<close> in order and, for each, inserting it at the back and then evicting the
  oldest item if the size is now greater than or equal to the bound
  (\<open>insert_then_evict\<close>).
\<close>

theorem Push_batch_inserts_one_at_a_time:
  "Push_batch ts s = Inr (s\<lparr>queue := fold (insert_then_evict (GetMaxCount s)) ts (queue s)\<rparr>)"
  by (simp add: Push_batch_eq GetMaxCount_def)

theorem Push_batch_inserts_one_at_a_time_witness:
  "Push_batch [3, 4] \<lparr>queue = [1::nat, 2], max_count = 3\<rparr> = Inr \<lparr>queue = [3, 4], max_count = 3\<rparr>"
  using Push_batch_inserts_one_at_a_time[of "[3, 4]" "\<lparr>queue = [1::nat, 2], max_count = 3\<rparr>"]
  by (simp add: GetMaxCount_def insert_then_evict_def)

text \<open>
  C9. \<^verbatim>\<open>Erase(v)\<close> always returns, and returns true iff \<open>v\<close> is in the queue. If it is
  not, the queue is unchanged. If it is, the queue is \<open>ys @ v # zs\<close> with \<open>v\<close> not in
  \<open>ys\<close>, and the call leaves \<open>ys @ zs\<close>: only the first item equal to \<open>v\<close> is removed,
  and the size goes down by exactly 1.
\<close>

theorem Erase_removes_first_match:
  "Erase t s = Inr (t \<in> set (queue s), s\<lparr>queue := remove1 t (queue s)\<rparr>)
   \<and> (t \<notin> set (queue s) \<longrightarrow> Erase t s = Inr (False, s))
   \<and> (t \<in> set (queue s) \<longrightarrow>
        (\<exists>ys zs s'. queue s = ys @ t # zs \<and> t \<notin> set ys
           \<and> Erase t s = Inr (True, s') \<and> s' = s\<lparr>queue := ys @ zs\<rparr>
           \<and> Size s' + 1 = Size s))"
proof (intro conjI impI)
  show "Erase t s = Inr (t \<in> set (queue s), s\<lparr>queue := remove1 t (queue s)\<rparr>)"
    by (rule Erase_eq)
next
  assume "t \<notin> set (queue s)"
  then show "Erase t s = Inr (False, s)"
    by (simp add: Erase_eq remove1_idem)
next
  assume "t \<in> set (queue s)"
  then obtain ys zs where q: "queue s = ys @ t # zs" and n: "t \<notin> set ys"
    by (auto dest: split_list_first)
  then have "remove1 t (queue s) = ys @ zs"
    by (simp add: remove1_append)
  with q n show "\<exists>ys zs s'. queue s = ys @ t # zs \<and> t \<notin> set ys
           \<and> Erase t s = Inr (True, s') \<and> s' = s\<lparr>queue := ys @ zs\<rparr>
           \<and> Size s' + 1 = Size s"
    by (intro exI[of _ ys] exI[of _ zs] exI[of _ "s\<lparr>queue := ys @ zs\<rparr>"])
       (simp add: Erase_eq Size_def)
qed

theorem Erase_removes_first_match_witness:
  "(1::nat) \<in> set (queue \<lparr>queue = [3, 1, 2, 1], max_count = 4\<rparr>)
   \<and> Erase 1 \<lparr>queue = [3::nat, 1, 2, 1], max_count = 4\<rparr> = Inr (True, \<lparr>queue = [3, 2, 1], max_count = 4\<rparr>)
   \<and> (7::nat) \<notin> set (queue \<lparr>queue = [3, 1, 2, 1], max_count = 4\<rparr>)
   \<and> Erase 7 \<lparr>queue = [3::nat, 1, 2, 1], max_count = 4\<rparr> = Inr (False, \<lparr>queue = [3, 1, 2, 1], max_count = 4\<rparr>)"
  using Erase_removes_first_match[of 1 "\<lparr>queue = [3::nat, 1, 2, 1], max_count = 4\<rparr>"]
        Erase_removes_first_match[of 7 "\<lparr>queue = [3::nat, 1, 2, 1], max_count = 4\<rparr>"]
  by simp

text \<open>
  C10. A call other than \<^verbatim>\<open>SetMaxCount\<close> (the two \<^verbatim>\<open>Try_Push\<close>, the two \<^verbatim>\<open>Push\<close>,
  the two \<^verbatim>\<open>Pop\<close>, \<^verbatim>\<open>Pop_Must\<close>, \<^verbatim>\<open>Clear\<close>, \<^verbatim>\<open>Erase\<close> and the four queries)
  leaves the bound as it was: \<^verbatim>\<open>GetMaxCount()\<close> is the same before and after the call.
\<close>

theorem other_calls_keep_bound:
  "\<not> sets_bound c \<Longrightarrow> exec d c s = Inr (r, s') \<Longrightarrow> GetMaxCount s' = GetMaxCount s"
  unfolding GetMaxCount_def by (rule exec_frame)

theorem other_calls_keep_bound_witness:
  "\<not> sets_bound (Call_Push_batch [4::nat, 5])
   \<and> exec 0 (Call_Push_batch [4, 5]) \<lparr>queue = [1::nat, 2, 3], max_count = 4\<rparr>
       = Inr (Ret_void, \<lparr>queue = [3, 4, 5], max_count = 4\<rparr>)
   \<and> GetMaxCount \<lparr>queue = [3::nat, 4, 5], max_count = 4\<rparr>
       = GetMaxCount \<lparr>queue = [1::nat, 2, 3], max_count = 4\<rparr>"
proof -
  have h1: "\<not> sets_bound (Call_Push_batch [4::nat, 5])" by simp
  have h2: "exec 0 (Call_Push_batch [4, 5]) \<lparr>queue = [1::nat, 2, 3], max_count = 4\<rparr>
       = Inr (Ret_void, \<lparr>queue = [3, 4, 5], max_count = 4\<rparr>)"
    by (simp add: Push_batch_eq insert_then_evict_def)
  from h1 h2 other_calls_keep_bound[OF h1 h2] show ?thesis by simp
qed

end
